theory Spec2Isabelle
  imports Main "HOL-Library.AList"
begin

section \<open>Data model (db.py)\<close>

text \<open>
  The three SQLModel tables of db.py. A stored row always carries its primary key, so the
  \<open>Optional[int]\<close> id of the classes is an \<open>int\<close> here. The field \<open>id\<close> of each class is
  prefixed with the table's letter, as are the other fields, since record fields share one
  name space.
\<close>

record Activity =
  a_id :: int
  a_name :: string
  a_description :: "string option"
  a_schedule :: "string option"
  a_max_participants :: int

record User =
  u_id :: int
  u_email :: string

record Participation =
  p_id :: int
  p_activity_id :: int
  p_user_id :: int

text \<open>
  The database: each table is the list of its rows in the order a table scan returns
  them, and an inserted row goes to the end.
\<close>

record store =
  activities :: "Activity list"
  users :: "User list"
  participations :: "Participation list"

text \<open>\<open>HTTPException(status_code=..., detail=...)\<close>.\<close>

record HTTPException =
  status_code :: int
  detail :: string

text \<open>
  The key the storage engine gives a row inserted without one: one more than the largest
  key of the table, and 1 in an empty table.
\<close>

definition next_id :: "int list \<Rightarrow> int" where
  "next_id ids = (if ids = [] then 1 else Max (set ids) + 1)"

text \<open>\<open>session.add(row); session.commit()\<close> for each table.\<close>

definition add_activity ::
  "string \<Rightarrow> string option \<Rightarrow> string option \<Rightarrow> int \<Rightarrow> store \<Rightarrow> store" where
  "add_activity n d sch m s =
     s\<lparr>activities := activities s @
         [\<lparr>a_id = next_id (map a_id (activities s)), a_name = n, a_description = d,
           a_schedule = sch, a_max_participants = m\<rparr>]\<rparr>"

definition add_user :: "string \<Rightarrow> store \<Rightarrow> User \<times> store" where
  "add_user e s =
     (let user = \<lparr>u_id = next_id (map u_id (users s)), u_email = e\<rparr>
      in (user, s\<lparr>users := users s @ [user]\<rparr>))"

definition add_participation :: "int \<Rightarrow> int \<Rightarrow> store \<Rightarrow> store" where
  "add_participation aid uid s =
     s\<lparr>participations := participations s @
         [\<lparr>p_id = next_id (map p_id (participations s)), p_activity_id = aid,
           p_user_id = uid\<rparr>]\<rparr>"

text \<open>\<open>session.delete(row); session.commit()\<close>: the row is deleted by its primary key.\<close>

definition delete_participation :: "Participation \<Rightarrow> store \<Rightarrow> store" where
  "delete_participation p s =
     s\<lparr>participations := filter (\<lambda>q. p_id q \<noteq> p_id p) (participations s)\<rparr>"

text \<open>
  \<open>init_db\<close> on first run: \<open>create_all\<close> makes the three tables, with no row.
\<close>

definition init_db :: store where
  "init_db = \<lparr>activities = [], users = [], participations = []\<rparr>"

text \<open>
  The list \<open>initial\<close> of \<open>seed_initial_activities_if_needed\<close>: name, description, schedule
  and max_participants of each dict.
\<close>

definition initial :: "(string \<times> string \<times> string \<times> int) list" where
  "initial =
     [(''Chess Club'', ''Learn strategies and compete in chess tournaments'',
       ''Fridays, 3:30 PM - 5:00 PM'', 12),
      (''Programming Class'', ''Learn programming fundamentals and build software projects'',
       ''Tuesdays and Thursdays, 3:30 PM - 4:30 PM'', 20),
      (''Gym Class'', ''Physical education and sports activities'',
       ''Mondays, Wednesdays, Fridays, 2:00 PM - 3:00 PM'', 30),
      (''Soccer Team'', ''Join the school soccer team and compete in matches'',
       ''Tuesdays and Thursdays, 4:00 PM - 5:30 PM'', 22),
      (''Basketball Team'', ''Practice and play basketball with the school team'',
       ''Wednesdays and Fridays, 3:30 PM - 5:00 PM'', 15),
      (''Art Club'', ''Explore your creativity through painting and drawing'',
       ''Thursdays, 3:30 PM - 5:00 PM'', 15),
      (''Drama Club'', ''Act, direct, and produce plays and performances'',
       ''Mondays and Wednesdays, 4:00 PM - 5:30 PM'', 20),
      (''Math Club'', ''Solve challenging problems and participate in math competitions'',
       ''Tuesdays, 3:30 PM - 4:30 PM'', 10),
      (''Debate Team'', ''Develop public speaking and argumentation skills'',
       ''Fridays, 4:00 PM - 5:30 PM'', 12)]"

text \<open>
  \<open>select(Activity)...first()\<close> is the first row of the table, \<open>None\<close> when the table is
  empty; only then is each dict of \<open>initial\<close> added, in order.
\<close>

definition seed_initial_activities_if_needed :: "store \<Rightarrow> store" where
  "seed_initial_activities_if_needed s =
     (case activities s of
        [] \<Rightarrow> fold (\<lambda>(n, d, sch, m). add_activity n (Some d) (Some sch) m) initial s
      | count # rest \<Rightarrow> s)"

text \<open>The value stored under each activity name by \<open>activities_as_dict\<close>.\<close>

record entry =
  description :: "string option"
  schedule :: "string option"
  max_participants :: int
  participants :: "string list"

text \<open>
  The emails of the join of User and Participation on \<open>user_id\<close>, for one activity. SQL
  leaves the order of the rows open; here it is the order of the User table.
\<close>

definition parts :: "store \<Rightarrow> Activity \<Rightarrow> string list" where
  "parts s activity =
     [u_email u. u \<leftarrow> users s, p \<leftarrow> participations s,
                 p_user_id p = u_id u \<and> p_activity_id p = a_id activity]"

text \<open>
  The dict \<open>out\<close> is an association list in insertion order; \<open>out[k] = v\<close> replaces the
  value of a key already there and appends a new key otherwise.
\<close>

definition activities_as_dict :: "store \<Rightarrow> (string \<times> entry) list" where
  "activities_as_dict s =
     fold (\<lambda>activity out.
             AList.update (a_name activity)
               \<lparr>description = a_description activity, schedule = a_schedule activity,
                max_participants = a_max_participants activity,
                participants = parts s activity\<rparr> out)
          (activities s) []"

section \<open>The routes (app.py)\<close>

text \<open>
  A route takes the database and returns its response, \<open>Inl\<close> the raised HTTPException
  and \<open>Inr\<close> the message of the returned body, with the database as committed when the
  session closes.
\<close>

definition get_activities :: "store \<Rightarrow> (string \<times> entry) list \<times> store" where
  "get_activities s = (activities_as_dict s, s)"

text \<open>
  The \<open>select(...).where(...)\<close> queries of the routes. \<open>first()\<close> is the first selected row:
  \<open>find\<close> on the table, or the head of the selected rows.
\<close>

definition activity_named :: "store \<Rightarrow> string \<Rightarrow> Activity option" where
  "activity_named s activity_name = find (\<lambda>a. a_name a = activity_name) (activities s)"

definition user_with_email :: "store \<Rightarrow> string \<Rightarrow> User option" where
  "user_with_email s email = find (\<lambda>u. u_email u = email) (users s)"

definition participations_of :: "store \<Rightarrow> int \<Rightarrow> int \<Rightarrow> Participation list" where
  "participations_of s aid uid =
     filter (\<lambda>p. p_activity_id p = aid \<and> p_user_id p = uid) (participations s)"

definition participants_of :: "store \<Rightarrow> int \<Rightarrow> Participation list" where
  "participants_of s aid = filter (\<lambda>p. p_activity_id p = aid) (participations s)"

text \<open>Lines 52 to 57 of app.py: the user of the email, created and committed if missing.\<close>

definition ensure_user :: "string \<Rightarrow> store \<Rightarrow> User \<times> store" where
  "ensure_user email s =
     (case user_with_email s email of
        None \<Rightarrow> add_user email s
      | Some user \<Rightarrow> (user, s))"

definition signup_for_activity ::
  "string \<Rightarrow> string \<Rightarrow> store \<Rightarrow> (HTTPException + string) \<times> store" where
  "signup_for_activity activity_name email s =
     (case activity_named s activity_name of
        None \<Rightarrow> (Inl \<lparr>status_code = 404, detail = ''Activity not found''\<rparr>, s)
      | Some activity \<Rightarrow>
          (case ensure_user email s of
             (user, s1) \<Rightarrow>
               (case participations_of s1 (a_id activity) (u_id user) of
                  existing # rest \<Rightarrow>
                    (Inl \<lparr>status_code = 400, detail = ''Student is already signed up''\<rparr>, s1)
                | [] \<Rightarrow>
                    (if a_max_participants activity \<noteq> 0
                        \<and> int (length (participants_of s1 (a_id activity)))
                            \<ge> a_max_participants activity
                     then (Inl \<lparr>status_code = 400, detail = ''Activity is full''\<rparr>, s1)
                     else (Inr (''Signed up '' @ email @ '' for '' @ activity_name),
                           add_participation (a_id activity) (u_id user) s1)))))"

definition unregister_from_activity ::
  "string \<Rightarrow> string \<Rightarrow> store \<Rightarrow> (HTTPException + string) \<times> store" where
  "unregister_from_activity activity_name email s =
     (case activity_named s activity_name of
        None \<Rightarrow> (Inl \<lparr>status_code = 404, detail = ''Activity not found''\<rparr>, s)
      | Some activity \<Rightarrow>
          (case user_with_email s email of
             None \<Rightarrow>
               (Inl \<lparr>status_code = 400,
                     detail = ''Student is not signed up for this activity''\<rparr>, s)
           | Some user \<Rightarrow>
               (case participations_of s (a_id activity) (u_id user) of
                  [] \<Rightarrow>
                    (Inl \<lparr>status_code = 400,
                          detail = ''Student is not signed up for this activity''\<rparr>, s)
                | participation # rest \<Rightarrow>
                    (Inr (''Unregistered '' @ email @ '' from '' @ activity_name),
                     delete_participation participation s))))"

text \<open>A sequence of signup and unregister requests, served one after the other.\<close>

datatype request = Signup string string | Unregister string string

fun handle :: "request \<Rightarrow> store \<Rightarrow> (HTTPException + string) \<times> store" where
  "handle (Signup activity_name email) s = signup_for_activity activity_name email s"
| "handle (Unregister activity_name email) s = unregister_from_activity activity_name email s"

fun serve :: "request list \<Rightarrow> store \<Rightarrow> (HTTPException + string) list \<times> store" where
  "serve [] s = ([], s)"
| "serve (r # rs) s =
     (case handle r s of
        (x, s1) \<Rightarrow> (case serve rs s1 of (xs, s2) \<Rightarrow> (x # xs, s2)))"

section \<open>Properties of a database\<close>

text \<open>
  What the table declarations of db.py say of a database: \<open>id\<close> is the primary key of each
  table, and the two columns of Participation are foreign keys into Activity and User.
\<close>

definition primary_keys :: "store \<Rightarrow> bool" where
  "primary_keys s \<longleftrightarrow>
     distinct (map a_id (activities s)) \<and> distinct (map u_id (users s))
     \<and> distinct (map p_id (participations s))"

definition foreign_keys :: "store \<Rightarrow> bool" where
  "foreign_keys s \<longleftrightarrow>
     (\<forall>p \<in> set (participations s).
        p_activity_id p \<in> set (map a_id (activities s))
        \<and> p_user_id p \<in> set (map u_id (users s)))"

definition schema_ok :: "store \<Rightarrow> bool" where
  "schema_ok s \<longleftrightarrow> primary_keys s \<and> foreign_keys s"

text \<open>
  The student of an email is signed up for an activity when the two lookups of the routes
  find a Participation: the first User of that email has one for the activity.
\<close>

definition signed_up :: "store \<Rightarrow> Activity \<Rightarrow> string \<Rightarrow> bool" where
  "signed_up s activity email \<longleftrightarrow>
     (case user_with_email s email of
        None \<Rightarrow> False
      | Some user \<Rightarrow> participations_of s (a_id activity) (u_id user) \<noteq> [])"

text \<open>The number of Participation rows of an activity.\<close>

definition participant_count :: "store \<Rightarrow> Activity \<Rightarrow> int" where
  "participant_count s activity = int (length (participants_of s (a_id activity)))"

text \<open>No activity with a positive max_participants has more Participation rows than that.\<close>

definition within_capacity :: "store \<Rightarrow> bool" where
  "within_capacity s \<longleftrightarrow>
     (\<forall>a \<in> set (activities s).
        a_max_participants a > 0 \<longrightarrow> participant_count s a \<le> a_max_participants a)"

section \<open>Two small databases\<close>

text \<open>
  A club of two places with one of them taken, beside an activity with no limit; and the
  same database once the club is full.
\<close>

definition small_club :: store where
  "small_club =
     \<lparr>activities =
        [\<lparr>a_id = 1, a_name = ''Chess Club'', a_description = Some ''Learn strategies'',
          a_schedule = Some ''Fridays'', a_max_participants = 2\<rparr>,
         \<lparr>a_id = 2, a_name = ''Open Lab'', a_description = None, a_schedule = None,
          a_max_participants = 0\<rparr>],
      users = [\<lparr>u_id = 1, u_email = ''a@x.com''\<rparr>, \<lparr>u_id = 2, u_email = ''b@x.com''\<rparr>],
      participations = [\<lparr>p_id = 1, p_activity_id = 1, p_user_id = 1\<rparr>]\<rparr>"

definition full_club :: store where
  "full_club =
     small_club\<lparr>participations :=
       [\<lparr>p_id = 1, p_activity_id = 1, p_user_id = 1\<rparr>,
        \<lparr>p_id = 2, p_activity_id = 1, p_user_id = 2\<rparr>]\<rparr>"

definition chess_club :: Activity where
  "chess_club =
     \<lparr>a_id = 1, a_name = ''Chess Club'', a_description = Some ''Learn strategies'',
      a_schedule = Some ''Fridays'', a_max_participants = 2\<rparr>"

definition open_lab :: Activity where
  "open_lab =
     \<lparr>a_id = 2, a_name = ''Open Lab'', a_description = None, a_schedule = None,
      a_max_participants = 0\<rparr>"

text \<open>The definitions a concrete run unfolds.\<close>

lemmas db_defs = small_club_def full_club_def chess_club_def open_lab_def init_db_def
  activity_named_def user_with_email_def participations_of_def participants_of_def
  participant_count_def signed_up_def primary_keys_def foreign_keys_def schema_ok_def
  ensure_user_def add_user_def add_participation_def delete_participation_def next_id_def
  signup_for_activity_def unregister_from_activity_def

lemma small_club_schema_ok: "schema_ok small_club"
  by (simp add: db_defs)

lemma full_club_schema_ok: "schema_ok full_club"
  by (simp add: db_defs)

lemma small_club_chess: "activity_named small_club ''Chess Club'' = Some chess_club"
  by (simp add: db_defs)

lemma full_club_chess: "activity_named full_club ''Chess Club'' = Some chess_club"
  by (simp add: db_defs)

lemma small_club_lab: "activity_named small_club ''Open Lab'' = Some open_lab"
  by (simp add: db_defs)

section \<open>Keys, lookups and the user of a signup\<close>

lemma next_id_greater: "i \<in> set ids \<Longrightarrow> i < next_id ids"
proof -
  assume h: "i \<in> set ids"
  then have "ids \<noteq> []" by auto
  moreover from h have "i \<le> Max (set ids)" by simp
  ultimately show ?thesis by (simp add: next_id_def)
qed

lemma next_id_fresh: "next_id ids \<notin> set ids"
  using next_id_greater [of "next_id ids" ids] by auto

lemma next_id_map_fresh: "x \<in> set xs \<Longrightarrow> next_id (map f xs) \<noteq> f x"
  using next_id_fresh [of "map f xs"] by auto

lemma find_app:
  "find P (xs @ ys) = (case find P xs of None \<Rightarrow> find P ys | Some x \<Rightarrow> Some x)"
  by (induction xs) auto

lemma find_member: "find P xs = Some x \<Longrightarrow> x \<in> set xs \<and> P x"
  by (induction xs) (auto split: if_splits)

lemma activity_named_member:
  "activity_named s n = Some a \<Longrightarrow> a \<in> set (activities s) \<and> a_name a = n"
  unfolding activity_named_def by (rule find_member)

lemma user_with_email_member:
  "user_with_email s e = Some u \<Longrightarrow> u \<in> set (users s) \<and> u_email u = e"
  unfolding user_with_email_def by (rule find_member)

lemma ensure_user_cases:
  assumes "ensure_user e s = (u, s1)"
  shows "(user_with_email s e = Some u \<and> s1 = s)
       \<or> (user_with_email s e = None \<and> u = \<lparr>u_id = next_id (map u_id (users s)), u_email = e\<rparr>
            \<and> s1 = s\<lparr>users := users s @ [u]\<rparr>)"
  using assms by (auto simp: ensure_user_def add_user_def Let_def split: option.splits)

lemma ensure_user_frame:
  "ensure_user e s = (u, s1) \<Longrightarrow>
     activities s1 = activities s \<and> participations s1 = participations s"
  by (auto dest: ensure_user_cases)

lemma ensure_user_found:
  "ensure_user e s = (u, s1) \<Longrightarrow> user_with_email s1 e = Some u"
  by (auto dest!: ensure_user_cases simp: user_with_email_def find_app)

lemma ensure_user_foreign_keys:
  "ensure_user e s = (u, s1) \<Longrightarrow> foreign_keys s \<Longrightarrow> foreign_keys s1"
  by (auto dest!: ensure_user_cases simp: foreign_keys_def)

lemma ensure_user_not_signed_up:
  assumes "ensure_user e s = (u, s1)" and "foreign_keys s" and "\<not> signed_up s a e"
  shows "participations_of s1 (a_id a) (u_id u) = []"
proof -
  from assms(1) consider
    (known) "user_with_email s e = Some u" "s1 = s"
  | (new) "u_id u = next_id (map u_id (users s))" "participations s1 = participations s"
    by (auto dest!: ensure_user_cases)
  then show ?thesis
  proof cases
    case known
    with assms(3) show ?thesis by (simp add: signed_up_def)
  next
    case new
    have "p_user_id p \<noteq> u_id u" if "p \<in> set (participations s)" for p
    proof -
      from that assms(2) have "p_user_id p \<in> set (map u_id (users s))"
        by (simp add: foreign_keys_def)
      with new(1) show ?thesis using next_id_fresh [of "map u_id (users s)"] by metis
    qed
    with new(2) show ?thesis by (auto simp: participations_of_def filter_empty_conv)
  qed
qed

lemma signup_duplicate:
  assumes "activity_named s n = Some a" and "signed_up s a e"
  shows "signup_for_activity n e s
           = (Inl \<lparr>status_code = 400, detail = ''Student is already signed up''\<rparr>, s)"
  using assms
  by (auto simp: signup_for_activity_def signed_up_def ensure_user_def
           split: option.splits list.splits)

lemma signup_new:
  assumes "activity_named s n = Some a" and "foreign_keys s" and "\<not> signed_up s a e"
    and "ensure_user e s = (u, s1)"
  shows "signup_for_activity n e s =
           (if a_max_participants a \<noteq> 0 \<and> participant_count s a \<ge> a_max_participants a
            then (Inl \<lparr>status_code = 400, detail = ''Activity is full''\<rparr>, s1)
            else (Inr (''Signed up '' @ e @ '' for '' @ n),
                  add_participation (a_id a) (u_id u) s1))"
proof -
  have "participations_of s1 (a_id a) (u_id u) = []"
    using assms(4,2,3) by (rule ensure_user_not_signed_up)
  moreover have "participants_of s1 (a_id a) = participants_of s (a_id a)"
    using ensure_user_frame [OF assms(4)] by (simp add: participants_of_def)
  ultimately show ?thesis
    using assms(1,4) by (simp add: signup_for_activity_def participant_count_def)
qed

lemma ensure_user_known:
  "user_with_email s e = Some u \<Longrightarrow> ensure_user e s = (u, s)"
  by (simp add: ensure_user_def)

lemma ensure_user_new:
  "user_with_email s e = None \<Longrightarrow>
   ensure_user e s =
     (\<lparr>u_id = next_id (map u_id (users s)), u_email = e\<rparr>,
      s\<lparr>users := users s @ [\<lparr>u_id = next_id (map u_id (users s)), u_email = e\<rparr>]\<rparr>)"
  by (simp add: ensure_user_def add_user_def Let_def)

lemma delete_last_added:
  "delete_participation
     \<lparr>p_id = next_id (map p_id (participations s)), p_activity_id = aid, p_user_id = uid\<rparr>
     (add_participation aid uid s) = s"
proof -
  have "filter (\<lambda>q. p_id q \<noteq> next_id (map p_id (participations s))) (participations s)
          = participations s"
    by (rule filter_True) (metis next_id_map_fresh)
  then show ?thesis by (simp add: delete_participation_def add_participation_def)
qed

lemma signed_up_after_add:
  assumes "ensure_user e s = (u, s1)"
  shows "signed_up (add_participation (a_id a) (u_id u) s1) a e"
proof -
  have "user_with_email (add_participation (a_id a) (u_id u) s1) e = Some u"
    using ensure_user_found [OF assms] by (simp add: user_with_email_def add_participation_def)
  then show ?thesis
    by (simp add: signed_up_def participations_of_def add_participation_def)
qed

lemma small_club_b_free: "\<not> signed_up small_club chess_club ''b@x.com''"
  by (simp add: db_defs)

lemma small_club_c_free: "\<not> signed_up small_club chess_club ''c@x.com''"
  by (simp add: db_defs)

lemma full_club_c_free: "\<not> signed_up full_club chess_club ''c@x.com''"
  by (simp add: db_defs)

lemma chess_club_limit: "a_max_participants chess_club \<noteq> 0"
  by (simp add: chess_club_def)

lemma small_club_spare:
  "a_max_participants chess_club = 0
   \<or> participant_count small_club chess_club < a_max_participants chess_club"
  by (simp add: db_defs)

section \<open>What each route does to the tables\<close>

lemma signup_effect:
  obtains (same) "participations (snd (signup_for_activity n e s)) = participations s"
  | (added) a u where "activity_named s n = Some a"
      and "a_max_participants a = 0 \<or> participant_count s a < a_max_participants a"
      and "u \<in> set (users (snd (signup_for_activity n e s)))"
      and "participations (snd (signup_for_activity n e s))
             = participations s @ [\<lparr>p_id = next_id (map p_id (participations s)),
                                     p_activity_id = a_id a, p_user_id = u_id u\<rparr>]"
      and "user_with_email (snd (signup_for_activity n e s)) e = Some u"
proof (cases "activity_named s n")
  case None
  then have "participations (snd (signup_for_activity n e s)) = participations s"
    by (simp add: signup_for_activity_def)
  then show ?thesis by (rule same)
next
  case (Some a)
  obtain u s1 where eu: "ensure_user e s = (u, s1)" by (cases "ensure_user e s")
  note fr = ensure_user_frame [OF eu]
  have mem: "u \<in> set (users s1)"
    using ensure_user_found [OF eu] by (simp add: user_with_email_member)
  show ?thesis
  proof (cases "fst (signup_for_activity n e s)")
    case (Inl err)
    with Some eu fr have "participations (snd (signup_for_activity n e s)) = participations s"
      by (auto simp: signup_for_activity_def split: list.splits if_splits)
    then show ?thesis by (rule same)
  next
    case (Inr msg)
    with Some eu fr have
      "a_max_participants a = 0 \<or> participant_count s a < a_max_participants a"
      and "snd (signup_for_activity n e s) = add_participation (a_id a) (u_id u) s1"
      by (auto simp: signup_for_activity_def participant_count_def participants_of_def
               split: list.splits if_splits)
    with Some mem fr ensure_user_found [OF eu] show ?thesis
      by (intro added [of a u]) (simp_all add: add_participation_def user_with_email_def)
  qed
qed

lemma signup_activities: "activities (snd (signup_for_activity n e s)) = activities s"
proof (cases "ensure_user e s")
  case (Pair u s1)
  then show ?thesis
    using ensure_user_frame [OF Pair]
    by (simp add: signup_for_activity_def add_participation_def
             split: option.splits list.splits)
qed

lemma signup_users:
  "users (snd (signup_for_activity n e s)) = users s
   \<or> users (snd (signup_for_activity n e s))
        = users s @ [\<lparr>u_id = next_id (map u_id (users s)), u_email = e\<rparr>]"
proof (cases "ensure_user e s")
  case (Pair u s1)
  then show ?thesis
    using ensure_user_cases [OF Pair]
    by (auto simp: signup_for_activity_def add_participation_def
             split: option.splits list.splits)
qed

lemma unregister_effect:
  "activities (snd (unregister_from_activity n e s)) = activities s
   \<and> users (snd (unregister_from_activity n e s)) = users s
   \<and> (case fst (unregister_from_activity n e s) of
         Inl err \<Rightarrow> snd (unregister_from_activity n e s) = s
       | Inr msg \<Rightarrow>
           (\<exists>p \<in> set (participations s).
              participations (snd (unregister_from_activity n e s))
                = filter (\<lambda>q. p_id q \<noteq> p_id p) (participations s)))"
proof -
  have "p \<in> set (participations s)" if "participations_of s aid uid = p # rest"
    for p rest aid uid
  proof -
    from that have "p \<in> set (participations_of s aid uid)" by simp
    then show ?thesis by (simp add: participations_of_def)
  qed
  then show ?thesis
    by (auto simp: unregister_from_activity_def delete_participation_def
             split: option.splits list.splits)
qed

lemma filter_key_remove1:
  assumes "distinct (map f xs)" and "x \<in> set xs"
  shows "filter (\<lambda>y. f y \<noteq> f x) xs = remove1 x xs"
  using assms
proof (induction xs)
  case Nil
  then show ?case by simp
next
  case (Cons y ys)
  show ?case
  proof (cases "y = x")
    case True
    with Cons.prems have "\<forall>z \<in> set ys. f z \<noteq> f x" by (auto simp: image_iff)
    then have "filter (\<lambda>z. f z \<noteq> f x) ys = ys" by (simp add: filter_id_conv)
    with True show ?thesis by simp
  next
    case False
    with Cons.prems have "f y \<noteq> f x" by auto
    with False Cons show ?thesis by simp
  qed
qed

lemma signup_primary_keys:
  assumes "primary_keys s"
  shows "primary_keys (snd (signup_for_activity n e s))"
proof -
  have u: "distinct (map u_id (users (snd (signup_for_activity n e s))))"
    using signup_users [of n e s] assms
    by (auto simp: primary_keys_def next_id_map_fresh)
  have "distinct (map p_id (participations (snd (signup_for_activity n e s))))"
    using assms
    by (cases rule: signup_effect [of n e s]) (auto simp: primary_keys_def next_id_map_fresh)
  with u assms show ?thesis by (simp add: primary_keys_def signup_activities)
qed

lemma signup_foreign_keys:
  assumes "foreign_keys s"
  shows "foreign_keys (snd (signup_for_activity n e s))"
proof -
  have sub: "set (users s) \<subseteq> set (users (snd (signup_for_activity n e s)))"
    using signup_users [of n e s] by auto
  show ?thesis
  proof (cases rule: signup_effect [of n e s])
    case same
    with assms sub show ?thesis by (auto simp: foreign_keys_def signup_activities)
  next
    case (added a u)
    from added(1) have "a \<in> set (activities s)" by (simp add: activity_named_member)
    with assms sub added(3,4) show ?thesis
      by (auto simp: foreign_keys_def signup_activities)
  qed
qed

lemma unregister_primary_keys:
  assumes "primary_keys s"
  shows "primary_keys (snd (unregister_from_activity n e s))"
  using assms unregister_effect [of n e s]
  by (cases "fst (unregister_from_activity n e s)")
     (auto simp: primary_keys_def distinct_map_filter)

lemma unregister_foreign_keys:
  assumes "foreign_keys s"
  shows "foreign_keys (snd (unregister_from_activity n e s))"
  using assms unregister_effect [of n e s]
  by (cases "fst (unregister_from_activity n e s)") (auto simp: foreign_keys_def)

lemma handle_schema_ok: "schema_ok s \<Longrightarrow> schema_ok (snd (handle r s))"
  by (cases r)
     (simp_all add: schema_ok_def signup_primary_keys signup_foreign_keys
        unregister_primary_keys unregister_foreign_keys)

lemma serve_snd: "snd (serve (r # rs) s) = snd (serve rs (snd (handle r s)))"
  by (simp split: prod.splits)

lemma serve_fst: "fst (serve (r # rs) s) = fst (handle r s) # fst (serve rs (snd (handle r s)))"
  by (simp split: prod.splits)

lemma serve_schema_ok: "schema_ok s \<Longrightarrow> schema_ok (snd (serve rs s))"
proof (induction rs arbitrary: s)
  case Nil
  then show ?case by simp
next
  case (Cons r rs)
  from Cons.prems have "schema_ok (snd (handle r s))" by (rule handle_schema_ok)
  then have "schema_ok (snd (serve rs (snd (handle r s))))" by (rule Cons.IH)
  then show ?case by (simp only: serve_snd)
qed

lemma init_db_schema_ok: "schema_ok init_db"
  by (simp add: db_defs)

lemma serve_activities: "activities (snd (serve rs s)) = activities s"
proof (induction rs arbitrary: s)
  case Nil
  then show ?case by simp
next
  case (Cons r rs)
  have "activities (snd (handle r s)) = activities s"
    by (cases r) (simp_all add: signup_activities unregister_effect)
  with Cons.IH [of "snd (handle r s)"] show ?case by (simp only: serve_snd)
qed

lemma count_unchanged:
  "participations s' = participations s \<Longrightarrow> participant_count s' a = participant_count s a"
  by (simp add: participant_count_def participants_of_def)

lemma distinct_key_eq:
  "distinct (map f xs) \<Longrightarrow> x \<in> set xs \<Longrightarrow> y \<in> set xs \<Longrightarrow> f x = f y \<Longrightarrow> x = y"
  by (induction xs) (auto simp: image_iff)

lemma signup_within_capacity:
  assumes "primary_keys s" and "within_capacity s"
  shows "within_capacity (snd (signup_for_activity n e s))"
proof (cases rule: signup_effect [of n e s])
  case same
  then have "participant_count (snd (signup_for_activity n e s)) b = participant_count s b"
    for b by (rule count_unchanged)
  with assms(2) show ?thesis by (simp add: within_capacity_def signup_activities)
next
  case (added a u)
  let ?s' = "snd (signup_for_activity n e s)"
  have mem: "a \<in> set (activities s)"
    using added(1) by (simp add: activity_named_member)
  have keys: "distinct (map a_id (activities s))"
    using assms(1) by (simp add: primary_keys_def)
  have grown: "participant_count ?s' a = participant_count s a + 1"
    by (simp add: added(4) participant_count_def participants_of_def)
  have "participant_count ?s' b \<le> a_max_participants b"
    if b: "b \<in> set (activities s)" and pos: "a_max_participants b > 0" for b
  proof (cases "a_id b = a_id a")
    case True
    with keys b mem have "b = a" by (rule distinct_key_eq)
    moreover from this pos added(2) have "participant_count s a < a_max_participants a"
      by simp
    ultimately show ?thesis using grown by simp
  next
    case False
    then have "participant_count ?s' b = participant_count s b"
      by (simp add: added(4) participant_count_def participants_of_def)
    moreover from assms(2) b pos have "participant_count s b \<le> a_max_participants b"
      by (simp add: within_capacity_def)
    ultimately show ?thesis by simp
  qed
  then show ?thesis by (simp add: within_capacity_def signup_activities)
qed

lemma filter_swap: "filter P (filter Q xs) = filter Q (filter P xs)"
  by (induction xs) simp_all

lemma unregister_count:
  "participant_count (snd (unregister_from_activity n e s)) b \<le> participant_count s b"
proof (cases "fst (unregister_from_activity n e s)")
  case (Inl err)
  with unregister_effect [of n e s] show ?thesis by simp
next
  case (Inr msg)
  with unregister_effect [of n e s] have
    "\<exists>p \<in> set (participations s).
       participations (snd (unregister_from_activity n e s))
         = filter (\<lambda>q. p_id q \<noteq> p_id p) (participations s)"
    by simp
  then obtain p :: Participation where
    "participations (snd (unregister_from_activity n e s))
       = filter (\<lambda>q. p_id q \<noteq> p_id p) (participations s)"
    by blast
  then have "participants_of (snd (unregister_from_activity n e s)) (a_id b)
               = filter (\<lambda>q. p_activity_id q = a_id b)
                   (filter (\<lambda>q. p_id q \<noteq> p_id p) (participations s))"
    by (simp add: participants_of_def)
  also have "\<dots> = filter (\<lambda>q. p_id q \<noteq> p_id p) (participants_of s (a_id b))"
    unfolding participants_of_def by (rule filter_swap)
  finally show ?thesis by (simp add: participant_count_def)
qed

lemma unregister_within_capacity:
  assumes "within_capacity s"
  shows "within_capacity (snd (unregister_from_activity n e s))"
proof -
  have "participant_count (snd (unregister_from_activity n e s)) b \<le> a_max_participants b"
    if "b \<in> set (activities s)" and "a_max_participants b > 0" for b
  proof -
    from assms that have "participant_count s b \<le> a_max_participants b"
      by (simp add: within_capacity_def)
    with unregister_count [of n e s b] show ?thesis by linarith
  qed
  moreover have "activities (snd (unregister_from_activity n e s)) = activities s"
    using unregister_effect [of n e s] by simp
  ultimately show ?thesis by (simp add: within_capacity_def)
qed

section \<open>Seeding, and runs of requests\<close>

lemma initial_length: "length initial = 9"
  by (simp add: initial_def)

lemma seed_empty:
  assumes "activities s = []"
  shows "seed_initial_activities_if_needed s =
           s\<lparr>activities :=
               map (\<lambda>(i, n, d, sch, m).
                      \<lparr>a_id = i, a_name = n, a_description = Some d, a_schedule = Some sch,
                        a_max_participants = m\<rparr>)
                   (zip [1, 2, 3, 4, 5, 6, 7, 8, 9] initial)\<rparr>"
  using assms
  by (simp add: seed_initial_activities_if_needed_def initial_def add_activity_def next_id_def)

lemma seed_nonempty:
  "activities s \<noteq> [] \<Longrightarrow> seed_initial_activities_if_needed s = s"
  by (cases "activities s") (simp_all add: seed_initial_activities_if_needed_def)

lemma parts_empty: "participations s = [] \<Longrightarrow> parts s a = []"
  by (simp add: parts_def)

lemma no_activity_no_participation:
  "foreign_keys s \<Longrightarrow> activities s = [] \<Longrightarrow> participations s = []"
  by (cases "participations s") (auto simp: foreign_keys_def)

text \<open>
  The keys hold in the database \<open>init_db\<close> creates, and seeding keeps them, as does every
  request (\<open>serve_schema_ok\<close>): they hold in every database the application reaches.
\<close>

lemma seed_schema_ok:
  assumes "schema_ok s"
  shows "schema_ok (seed_initial_activities_if_needed s)"
proof (cases "activities s = []")
  case True
  from assms have "foreign_keys s" by (simp add: schema_ok_def)
  then have none: "participations s = []" using True by (rule no_activity_no_participation)
  have "distinct (map u_id (users s))" using assms by (simp add: schema_ok_def primary_keys_def)
  with none show ?thesis
    by (simp add: seed_empty [OF True] schema_ok_def primary_keys_def foreign_keys_def)
       (simp add: initial_def)
next
  case False
  with assms show ?thesis by (simp add: seed_nonempty)
qed

lemma reachable_schema_ok:
  "schema_ok (snd (serve rs (seed_initial_activities_if_needed init_db)))"
  by (intro serve_schema_ok seed_schema_ok init_db_schema_ok)

lemma handle_primary_keys: "primary_keys s \<Longrightarrow> primary_keys (snd (handle r s))"
  by (cases r) (simp_all add: signup_primary_keys unregister_primary_keys)

lemma handle_within_capacity:
  "primary_keys s \<Longrightarrow> within_capacity s \<Longrightarrow> within_capacity (snd (handle r s))"
  by (cases r) (simp_all add: signup_within_capacity unregister_within_capacity)

lemma seeded_primary_keys: "primary_keys (seed_initial_activities_if_needed init_db)"
proof -
  have "activities init_db = []" by (simp add: init_db_def)
  then show ?thesis
    by (simp add: seed_empty primary_keys_def) (simp add: init_db_def initial_def)
qed

lemma seeded_within_capacity: "within_capacity (seed_initial_activities_if_needed init_db)"
proof -
  have "activities init_db = []" by (simp add: init_db_def)
  then have "participations (seed_initial_activities_if_needed init_db) = []"
    by (simp add: seed_empty) (simp add: init_db_def)
  then have "participant_count (seed_initial_activities_if_needed init_db) a = 0" for a
    by (simp add: participant_count_def participants_of_def)
  then show ?thesis by (simp add: within_capacity_def)
qed

lemma full_club_within_capacity: "within_capacity full_club"
  by (simp add: within_capacity_def db_defs)

lemma signup_keeps_others_free:
  assumes "primary_keys s" and "e' \<noteq> e" and "\<not> signed_up s a e'"
  shows "\<not> signed_up (snd (signup_for_activity n e s)) a e'"
proof -
  let ?s' = "snd (signup_for_activity n e s)"
  have same_user: "user_with_email ?s' e' = user_with_email s e'"
    using signup_users [of n e s] assms(2)
    by (auto simp: user_with_email_def find_app split: option.splits)
  show ?thesis
  proof (cases "user_with_email s e'")
    case None
    with same_user show ?thesis by (simp add: signed_up_def)
  next
    case (Some u')
    with assms(3) have free: "participations_of s (a_id a) (u_id u') = []"
      by (simp add: signed_up_def)
    have "participations_of ?s' (a_id a) (u_id u') = []"
    proof (cases rule: signup_effect [of n e s])
      case same
      with free show ?thesis by (simp add: participations_of_def)
    next
      case (added a0 u)
      have keys: "distinct (map u_id (users ?s'))"
        using signup_primary_keys [OF assms(1), of n e] by (simp add: primary_keys_def)
      have u': "u' \<in> set (users ?s')" "u_email u' = e'"
        using Some same_user user_with_email_member [of ?s' e' u'] by simp_all
      have u: "u \<in> set (users ?s')" "u_email u = e"
        using added(5) user_with_email_member [of ?s' e u] by simp_all
      have "u_id u \<noteq> u_id u'"
      proof
        assume "u_id u = u_id u'"
        with keys u(1) u'(1) have "u = u'" by (rule distinct_key_eq)
        with u(2) u'(2) assms(2) show False by simp
      qed
      with free added(4) show ?thesis by (simp add: participations_of_def)
    qed
    with Some same_user show ?thesis by (simp add: signed_up_def)
  qed
qed

lemma signup_unlimited_step:
  assumes "schema_ok s" and "activity_named s n = Some a" and "a_max_participants a = 0"
    and "\<not> signed_up s a e"
  shows "fst (signup_for_activity n e s) = Inr (''Signed up '' @ e @ '' for '' @ n)
       \<and> participant_count (snd (signup_for_activity n e s)) a = participant_count s a + 1"
proof -
  obtain u s1 where eu: "ensure_user e s = (u, s1)" by (cases "ensure_user e s")
  from assms(1) have fk: "foreign_keys s" by (simp add: schema_ok_def)
  have "signup_for_activity n e s
          = (Inr (''Signed up '' @ e @ '' for '' @ n), add_participation (a_id a) (u_id u) s1)"
    using signup_new [OF assms(2) fk assms(4) eu] assms(3) by simp
  then show ?thesis
    using ensure_user_frame [OF eu]
    by (simp add: participant_count_def participants_of_def add_participation_def)
qed

lemma signup_all_unlimited:
  assumes "activity_named s n = Some a" and "a_max_participants a = 0"
    and "schema_ok s" and "distinct es" and "\<forall>e \<in> set es. \<not> signed_up s a e"
  shows "fst (serve (map (Signup n) es) s)
           = map (\<lambda>e. Inr (''Signed up '' @ e @ '' for '' @ n)) es
       \<and> participant_count (snd (serve (map (Signup n) es) s)) a
           = participant_count s a + int (length es)"
  using assms
proof (induction es arbitrary: s)
  case Nil
  then show ?case by simp
next
  case (Cons e es)
  let ?s' = "snd (signup_for_activity n e s)"
  from Cons.prems have free: "\<not> signed_up s a e" by simp
  note step = signup_unlimited_step [OF Cons.prems(3) Cons.prems(1) Cons.prems(2) free]
  have named: "activity_named ?s' n = Some a"
    using Cons.prems(1) by (simp add: activity_named_def signup_activities)
  have ok: "schema_ok ?s'"
    using handle_schema_ok [OF Cons.prems(3), of "Signup n e"] by simp
  have pk: "primary_keys s" using Cons.prems(3) by (simp add: schema_ok_def)
  have others: "\<forall>e' \<in> set es. \<not> signed_up ?s' a e'"
  proof
    fix e' assume mem: "e' \<in> set es"
    with Cons.prems(4) have "e' \<noteq> e" by auto
    moreover from mem Cons.prems(5) have "\<not> signed_up s a e'" by simp
    ultimately show "\<not> signed_up ?s' a e'" by (rule signup_keeps_others_free [OF pk])
  qed
  from Cons.prems(4) have "distinct es" by simp
  note ih = Cons.IH [OF named Cons.prems(2) ok this others]
  have "fst (serve (map (Signup n) (e # es)) s)
          = fst (signup_for_activity n e s) # fst (serve (map (Signup n) es) ?s')"
    by (simp only: list.map serve_fst handle.simps)
  moreover have "snd (serve (map (Signup n) (e # es)) s) = snd (serve (map (Signup n) es) ?s')"
    by (simp only: list.map serve_snd handle.simps)
  ultimately show ?case using step ih by simp
qed

lemma open_lab_unlimited: "a_max_participants open_lab = 0"
  by (simp add: open_lab_def)

section \<open>Signup: capacity and duplicates\<close>

text \<open>
  C1, as the code has it: for an activity found by its name, with max_participants not
  zero, and an email not already signed up for it: when the number of its Participation
  rows equals max_participants, signup raises HTTPException 400 "Activity is full" and adds
  no Participation; when that number is max_participants - 1, signup succeeds and appends
  one Participation, of the activity and the user of the email. (An email already signed
  up gets "Student is already signed up" instead, whatever the count: that check comes
  first.)
\<close>

theorem signup_at_capacity:
  assumes "schema_ok s" and "activity_named s n = Some a" and "a_max_participants a \<noteq> 0"
    and "\<not> signed_up s a e"
  shows "(participant_count s a = a_max_participants a \<longrightarrow>
            fst (signup_for_activity n e s)
              = Inl \<lparr>status_code = 400, detail = ''Activity is full''\<rparr>
            \<and> participations (snd (signup_for_activity n e s)) = participations s)
       \<and> (participant_count s a = a_max_participants a - 1 \<longrightarrow>
            fst (signup_for_activity n e s) = Inr (''Signed up '' @ e @ '' for '' @ n)
            \<and> (\<exists>u. user_with_email (snd (signup_for_activity n e s)) e = Some u
                  \<and> participations (snd (signup_for_activity n e s))
                      = participations s @
                        [\<lparr>p_id = next_id (map p_id (participations s)),
                          p_activity_id = a_id a, p_user_id = u_id u\<rparr>]))"
proof -
  obtain u s1 where eu: "ensure_user e s = (u, s1)" by (cases "ensure_user e s")
  from assms(1) have fk: "foreign_keys s" by (simp add: schema_ok_def)
  note su = signup_new [OF assms(2) fk assms(4) eu]
  note fr = ensure_user_frame [OF eu]
  have "user_with_email (add_participation (a_id a) (u_id u) s1) e = Some u"
    using ensure_user_found [OF eu] by (simp add: user_with_email_def add_participation_def)
  with su fr assms(3) show ?thesis by (simp add: add_participation_def)
qed

theorem signup_at_capacity_witness:
  "schema_ok full_club \<and> activity_named full_club ''Chess Club'' = Some chess_club
   \<and> a_max_participants chess_club \<noteq> 0 \<and> \<not> signed_up full_club chess_club ''c@x.com''
   \<and> participant_count full_club chess_club = a_max_participants chess_club
   \<and> fst (signup_for_activity ''Chess Club'' ''c@x.com'' full_club)
        = Inl \<lparr>status_code = 400, detail = ''Activity is full''\<rparr>
   \<and> schema_ok small_club \<and> activity_named small_club ''Chess Club'' = Some chess_club
   \<and> \<not> signed_up small_club chess_club ''b@x.com''
   \<and> participant_count small_club chess_club = a_max_participants chess_club - 1
   \<and> fst (signup_for_activity ''Chess Club'' ''b@x.com'' small_club)
        = Inr ''Signed up b@x.com for Chess Club''
   \<and> participations (snd (signup_for_activity ''Chess Club'' ''b@x.com'' small_club))
        = [\<lparr>p_id = 1, p_activity_id = 1, p_user_id = 1\<rparr>,
           \<lparr>p_id = 2, p_activity_id = 1, p_user_id = 2\<rparr>]"
proof -
  have full: "participant_count full_club chess_club = a_max_participants chess_club"
    by (simp add: db_defs)
  have last: "participant_count small_club chess_club = a_max_participants chess_club - 1"
    by (simp add: db_defs)
  note a = signup_at_capacity [OF full_club_schema_ok full_club_chess chess_club_limit
                                  full_club_c_free]
  note b = signup_at_capacity [OF small_club_schema_ok small_club_chess chess_club_limit
                                  small_club_b_free]
  from a full have "fst (signup_for_activity ''Chess Club'' ''c@x.com'' full_club)
                      = Inl \<lparr>status_code = 400, detail = ''Activity is full''\<rparr>"
    by simp
  moreover from b last
  have "fst (signup_for_activity ''Chess Club'' ''b@x.com'' small_club)
          = Inr ''Signed up b@x.com for Chess Club''"
    by simp
  moreover have "participations (snd (signup_for_activity ''Chess Club'' ''b@x.com'' small_club))
        = [\<lparr>p_id = 1, p_activity_id = 1, p_user_id = 1\<rparr>,
           \<lparr>p_id = 2, p_activity_id = 1, p_user_id = 2\<rparr>]"
    by (simp add: db_defs)
  ultimately show ?thesis
    using full last full_club_schema_ok full_club_chess chess_club_limit full_club_c_free
      small_club_schema_ok small_club_chess small_club_b_free
    by simp
qed

theorem signup_at_capacity_counterexample:
  "activity_named full_club ''Chess Club'' = Some chess_club
   \<and> a_max_participants chess_club \<noteq> 0
   \<and> participant_count full_club chess_club = a_max_participants chess_club
   \<and> signup_for_activity ''Chess Club'' ''a@x.com'' full_club
        = (Inl \<lparr>status_code = 400, detail = ''Student is already signed up''\<rparr>, full_club)
   \<and> fst (signup_for_activity ''Chess Club'' ''a@x.com'' full_club)
        \<noteq> Inl \<lparr>status_code = 400, detail = ''Activity is full''\<rparr>"
  by (simp add: db_defs)

text \<open>
  C2: for an activity with spare capacity and an email not signed up for it, the first
  signup succeeds; the same signup again raises HTTPException 400 "Student is already
  signed up" and leaves the database of the first as it is, its Participation rows
  included.
\<close>

theorem signup_twice:
  assumes "schema_ok s" and "activity_named s n = Some a"
    and "a_max_participants a = 0 \<or> participant_count s a < a_max_participants a"
    and "\<not> signed_up s a e"
  shows "fst (signup_for_activity n e s) = Inr (''Signed up '' @ e @ '' for '' @ n)
       \<and> signup_for_activity n e (snd (signup_for_activity n e s))
           = (Inl \<lparr>status_code = 400, detail = ''Student is already signed up''\<rparr>,
              snd (signup_for_activity n e s))"
proof -
  obtain u s1 where eu: "ensure_user e s = (u, s1)" by (cases "ensure_user e s")
  from assms(1) have fk: "foreign_keys s" by (simp add: schema_ok_def)
  have su: "signup_for_activity n e s
              = (Inr (''Signed up '' @ e @ '' for '' @ n), add_participation (a_id a) (u_id u) s1)"
    using signup_new [OF assms(2) fk assms(4) eu] assms(3) by auto
  have "activity_named (add_participation (a_id a) (u_id u) s1) n = Some a"
    using assms(2) ensure_user_frame [OF eu]
    by (simp add: activity_named_def add_participation_def)
  then have "signup_for_activity n e (add_participation (a_id a) (u_id u) s1)
               = (Inl \<lparr>status_code = 400, detail = ''Student is already signed up''\<rparr>,
                  add_participation (a_id a) (u_id u) s1)"
    using signed_up_after_add [OF eu] by (rule signup_duplicate)
  with su show ?thesis by simp
qed

theorem signup_twice_witness:
  "schema_ok small_club \<and> activity_named small_club ''Chess Club'' = Some chess_club
   \<and> participant_count small_club chess_club < a_max_participants chess_club
   \<and> \<not> signed_up small_club chess_club ''c@x.com''
   \<and> fst (signup_for_activity ''Chess Club'' ''c@x.com'' small_club)
        = Inr ''Signed up c@x.com for Chess Club''
   \<and> signup_for_activity ''Chess Club'' ''c@x.com''
          (snd (signup_for_activity ''Chess Club'' ''c@x.com'' small_club))
        = (Inl \<lparr>status_code = 400, detail = ''Student is already signed up''\<rparr>,
           snd (signup_for_activity ''Chess Club'' ''c@x.com'' small_club))"
proof -
  have "participant_count small_club chess_club < a_max_participants chess_club"
    by (simp add: db_defs)
  then show ?thesis
    using signup_twice [OF small_club_schema_ok small_club_chess small_club_spare
                           small_club_c_free]
      small_club_schema_ok small_club_chess small_club_c_free
    by simp
qed

section \<open>Unknown activity\<close>

text \<open>
  C3: when no Activity row has the given name, signup and unregister both raise
  HTTPException 404 "Activity not found", for every email, and the three tables are as
  before.
\<close>

theorem unknown_activity_not_found:
  assumes "activity_named s activity_name = None"
  shows "signup_for_activity activity_name email s
           = (Inl \<lparr>status_code = 404, detail = ''Activity not found''\<rparr>, s)
       \<and> unregister_from_activity activity_name email s
           = (Inl \<lparr>status_code = 404, detail = ''Activity not found''\<rparr>, s)"
  using assms by (simp add: signup_for_activity_def unregister_from_activity_def)

theorem unknown_activity_not_found_witness:
  "activity_named small_club ''Math Club'' = None
   \<and> signup_for_activity ''Math Club'' ''a@x.com'' small_club
        = (Inl \<lparr>status_code = 404, detail = ''Activity not found''\<rparr>, small_club)
   \<and> unregister_from_activity ''Math Club'' ''a@x.com'' small_club
        = (Inl \<lparr>status_code = 404, detail = ''Activity not found''\<rparr>, small_club)"
proof -
  have h: "activity_named small_club ''Math Club'' = None"
    by (simp add: activity_named_def small_club_def)
  show ?thesis using h unknown_activity_not_found [OF h, of "''a@x.com''"] by simp
qed

section \<open>Signup, unregister, signup\<close>

text \<open>
  C5: for an activity with spare capacity and an email not signed up for it, signup, then
  unregister, then signup, of the same name and email, succeed all three; after the
  unregister the email is not signed up for the activity, and the Participation table is
  the one before the first signup.
\<close>

theorem signup_unregister_signup:
  assumes "schema_ok s" and "activity_named s n = Some a"
    and "a_max_participants a = 0 \<or> participant_count s a < a_max_participants a"
    and "\<not> signed_up s a e"
  shows "fst (serve [Signup n e, Unregister n e, Signup n e] s)
           = [Inr (''Signed up '' @ e @ '' for '' @ n),
              Inr (''Unregistered '' @ e @ '' from '' @ n),
              Inr (''Signed up '' @ e @ '' for '' @ n)]
       \<and> \<not> signed_up (snd (serve [Signup n e, Unregister n e] s)) a e
       \<and> participations (snd (serve [Signup n e, Unregister n e] s)) = participations s"
proof -
  obtain u s1 where eu: "ensure_user e s = (u, s1)" by (cases "ensure_user e s")
  from assms(1) have fk: "foreign_keys s" by (simp add: schema_ok_def)
  note fr = ensure_user_frame [OF eu]
  let ?s2 = "add_participation (a_id a) (u_id u) s1"
  have none: "participations_of s1 (a_id a) (u_id u) = []"
    using eu fk assms(4) by (rule ensure_user_not_signed_up)
  have found: "user_with_email s1 e = Some u" using eu by (rule ensure_user_found)
  have named: "activity_named s1 n = Some a"
    using assms(2) fr by (simp add: activity_named_def)
  have first: "signup_for_activity n e s = (Inr (''Signed up '' @ e @ '' for '' @ n), ?s2)"
    using signup_new [OF assms(2) fk assms(4) eu] assms(3) by auto
  have "participations_of ?s2 (a_id a) (u_id u)
          = [\<lparr>p_id = next_id (map p_id (participations s1)), p_activity_id = a_id a,
               p_user_id = u_id u\<rparr>]"
    using none by (simp add: participations_of_def add_participation_def)
  moreover have "activity_named ?s2 n = Some a"
    using named by (simp add: activity_named_def add_participation_def)
  moreover have "user_with_email ?s2 e = Some u"
    using found by (simp add: user_with_email_def add_participation_def)
  ultimately have second:
    "unregister_from_activity n e ?s2 = (Inr (''Unregistered '' @ e @ '' from '' @ n), s1)"
    by (simp add: unregister_from_activity_def delete_last_added)
  have free: "\<not> signed_up s1 a e" using found none by (simp add: signed_up_def)
  have "participant_count s1 a = participant_count s a"
    using fr by (simp add: participant_count_def participants_of_def)
  with assms(3) have
    "signup_for_activity n e s1
       = (Inr (''Signed up '' @ e @ '' for '' @ n), add_participation (a_id a) (u_id u) s1)"
    using signup_new [OF named ensure_user_foreign_keys [OF eu fk] free
                         ensure_user_known [OF found]]
    by auto
  with first second free fr show ?thesis by simp
qed

theorem signup_unregister_signup_witness:
  "schema_ok small_club \<and> activity_named small_club ''Chess Club'' = Some chess_club
   \<and> participant_count small_club chess_club < a_max_participants chess_club
   \<and> \<not> signed_up small_club chess_club ''b@x.com''
   \<and> fst (serve [Signup ''Chess Club'' ''b@x.com'', Unregister ''Chess Club'' ''b@x.com'',
                  Signup ''Chess Club'' ''b@x.com''] small_club)
        = [Inr ''Signed up b@x.com for Chess Club'',
           Inr ''Unregistered b@x.com from Chess Club'',
           Inr ''Signed up b@x.com for Chess Club'']
   \<and> participations (snd (serve [Signup ''Chess Club'' ''b@x.com'',
                                  Unregister ''Chess Club'' ''b@x.com''] small_club))
        = [\<lparr>p_id = 1, p_activity_id = 1, p_user_id = 1\<rparr>]"
proof -
  have "participant_count small_club chess_club < a_max_participants chess_club"
    by (simp add: db_defs)
  moreover have "participations small_club = [\<lparr>p_id = 1, p_activity_id = 1, p_user_id = 1\<rparr>]"
    by (simp add: small_club_def)
  ultimately show ?thesis
    using signup_unregister_signup [OF small_club_schema_ok small_club_chess small_club_spare
                                       small_club_b_free]
      small_club_schema_ok small_club_chess small_club_b_free
    by simp
qed

section \<open>Unregister without a Participation\<close>

text \<open>
  C7: for an activity found by its name, when no User has the email, or the User of the
  email has no Participation for the activity, unregister raises HTTPException 400 with the
  one message "Student is not signed up for this activity", and the database is as
  before.
\<close>

theorem unregister_not_signed_up:
  assumes "activity_named s n = Some a"
    and "user_with_email s e = None
         \<or> (\<exists>u. user_with_email s e = Some u \<and> participations_of s (a_id a) (u_id u) = [])"
  shows "unregister_from_activity n e s
           = (Inl \<lparr>status_code = 400,
                   detail = ''Student is not signed up for this activity''\<rparr>, s)"
  using assms by (auto simp: unregister_from_activity_def)

theorem unregister_not_signed_up_witness:
  "activity_named small_club ''Chess Club'' = Some chess_club
   \<and> user_with_email small_club ''c@x.com'' = None
   \<and> unregister_from_activity ''Chess Club'' ''c@x.com'' small_club
        = (Inl \<lparr>status_code = 400,
                detail = ''Student is not signed up for this activity''\<rparr>, small_club)
   \<and> user_with_email small_club ''b@x.com'' = Some \<lparr>u_id = 2, u_email = ''b@x.com''\<rparr>
   \<and> participations_of small_club (a_id chess_club) 2 = []
   \<and> unregister_from_activity ''Chess Club'' ''b@x.com'' small_club
        = (Inl \<lparr>status_code = 400,
                detail = ''Student is not signed up for this activity''\<rparr>, small_club)"
proof -
  have c: "user_with_email small_club ''c@x.com'' = None" by (simp add: db_defs)
  have b: "user_with_email small_club ''b@x.com'' = Some \<lparr>u_id = 2, u_email = ''b@x.com''\<rparr>"
    by (simp add: db_defs)
  have n: "participations_of small_club (a_id chess_club) 2 = []" by (simp add: db_defs)
  from c have 1: "user_with_email small_club ''c@x.com'' = None
      \<or> (\<exists>u. user_with_email small_club ''c@x.com'' = Some u
             \<and> participations_of small_club (a_id chess_club) (u_id u) = [])"
    by simp
  from b n have 2: "user_with_email small_club ''b@x.com'' = None
      \<or> (\<exists>u. user_with_email small_club ''b@x.com'' = Some u
             \<and> participations_of small_club (a_id chess_club) (u_id u) = [])"
    by simp
  show ?thesis
    using unregister_not_signed_up [OF small_club_chess 1]
      unregister_not_signed_up [OF small_club_chess 2] small_club_chess b c n
    by simp
qed

section \<open>The user created by a signup\<close>

text \<open>
  C8: when the activity exists and no User has the email, the User table after signup is
  the one before with a User of that email appended, whatever the signup returns; in
  particular when the activity is full, signup raises HTTPException 400 "Activity is full"
  and the database it leaves differs from the one before by that User row.
\<close>

theorem signup_keeps_new_user:
  assumes "activity_named s n = Some a" and "user_with_email s e = None"
  shows "users (snd (signup_for_activity n e s))
           = users s @ [\<lparr>u_id = next_id (map u_id (users s)), u_email = e\<rparr>]
       \<and> (foreign_keys s \<and> a_max_participants a \<noteq> 0
            \<and> participant_count s a \<ge> a_max_participants a \<longrightarrow>
          signup_for_activity n e s
            = (Inl \<lparr>status_code = 400, detail = ''Activity is full''\<rparr>,
               s\<lparr>users := users s @ [\<lparr>u_id = next_id (map u_id (users s)), u_email = e\<rparr>]\<rparr>))"
proof -
  let ?u = "\<lparr>u_id = next_id (map u_id (users s)), u_email = e\<rparr>"
  have eu: "ensure_user e s = (?u, s\<lparr>users := users s @ [?u]\<rparr>)"
    using assms(2) by (rule ensure_user_new)
  have "users (snd (signup_for_activity n e s)) = users s @ [?u]"
    using assms(1) eu
    by (simp add: signup_for_activity_def add_participation_def split: list.splits)
  moreover have "\<not> signed_up s a e" using assms(2) by (simp add: signed_up_def)
  ultimately show ?thesis using signup_new [OF assms(1) _ _ eu] by simp
qed

theorem signup_keeps_new_user_witness:
  "activity_named full_club ''Chess Club'' = Some chess_club
   \<and> user_with_email full_club ''c@x.com'' = None
   \<and> foreign_keys full_club \<and> a_max_participants chess_club \<noteq> 0
   \<and> participant_count full_club chess_club \<ge> a_max_participants chess_club
   \<and> signup_for_activity ''Chess Club'' ''c@x.com'' full_club
        = (Inl \<lparr>status_code = 400, detail = ''Activity is full''\<rparr>,
           full_club\<lparr>users := [\<lparr>u_id = 1, u_email = ''a@x.com''\<rparr>,
                                \<lparr>u_id = 2, u_email = ''b@x.com''\<rparr>,
                                \<lparr>u_id = 3, u_email = ''c@x.com''\<rparr>]\<rparr>)
   \<and> users (snd (signup_for_activity ''Chess Club'' ''c@x.com'' full_club)) \<noteq> users full_club"
proof -
  have c: "user_with_email full_club ''c@x.com'' = None" by (simp add: db_defs)
  have fk: "foreign_keys full_club" using full_club_schema_ok by (simp add: schema_ok_def)
  have full: "participant_count full_club chess_club \<ge> a_max_participants chess_club"
    by (simp add: db_defs)
  have us: "users full_club = [\<lparr>u_id = 1, u_email = ''a@x.com''\<rparr>,
                               \<lparr>u_id = 2, u_email = ''b@x.com''\<rparr>]"
    by (simp add: db_defs)
  have "next_id (map u_id (users full_club)) = 3" by (simp add: us next_id_def)
  then show ?thesis
    using signup_keeps_new_user [OF full_club_chess c] full_club_chess c fk full
      chess_club_limit us
    by simp
qed

section \<open>An activity without a limit\<close>

text \<open>
  C4: for an activity found by its name whose max_participants is 0, no signup raises
  "Activity is full"; and on a database that satisfies its keys, signing up any list of
  distinct emails, none of them signed up for the activity, succeeds for every one of them
  and adds as many Participation rows to the activity as there are emails.
\<close>

theorem unlimited_activity:
  assumes "activity_named s n = Some a" and "a_max_participants a = 0"
  shows "(\<forall>err. fst (signup_for_activity n e s) = Inl err
            \<longrightarrow> detail err \<noteq> ''Activity is full'')
       \<and> (schema_ok s \<and> distinct es \<and> (\<forall>e \<in> set es. \<not> signed_up s a e) \<longrightarrow>
            fst (serve (map (Signup n) es) s)
              = map (\<lambda>e. Inr (''Signed up '' @ e @ '' for '' @ n)) es
            \<and> participant_count (snd (serve (map (Signup n) es) s)) a
                = participant_count s a + int (length es))"
proof -
  obtain u s1 where eu: "ensure_user e s = (u, s1)" by (cases "ensure_user e s")
  have "detail err \<noteq> ''Activity is full''" if "fst (signup_for_activity n e s) = Inl err"
    for err
    using that assms eu by (auto simp: signup_for_activity_def split: list.splits)
  then show ?thesis using signup_all_unlimited [OF assms] by blast
qed

theorem unlimited_activity_witness:
  "activity_named small_club ''Open Lab'' = Some open_lab \<and> a_max_participants open_lab = 0
   \<and> schema_ok small_club \<and> distinct [''a@x.com'', ''c@x.com'', ''d@x.com'']
   \<and> \<not> signed_up small_club open_lab ''a@x.com''
   \<and> \<not> signed_up small_club open_lab ''c@x.com''
   \<and> \<not> signed_up small_club open_lab ''d@x.com''
   \<and> fst (signup_for_activity ''Open Lab'' ''a@x.com'' small_club)
        \<noteq> Inl \<lparr>status_code = 400, detail = ''Activity is full''\<rparr>
   \<and> fst (serve (map (Signup ''Open Lab'') [''a@x.com'', ''c@x.com'', ''d@x.com''])
              small_club)
        = [Inr ''Signed up a@x.com for Open Lab'', Inr ''Signed up c@x.com for Open Lab'',
           Inr ''Signed up d@x.com for Open Lab'']
   \<and> participant_count
         (snd (serve (map (Signup ''Open Lab'') [''a@x.com'', ''c@x.com'', ''d@x.com''])
                 small_club)) open_lab = 3"
proof -
  have d: "distinct [''a@x.com'', ''c@x.com'', ''d@x.com'']" by simp
  have free: "\<forall>e \<in> set [''a@x.com'', ''c@x.com'', ''d@x.com''].
                \<not> signed_up small_club open_lab e"
    by (simp add: db_defs)
  have zero: "participant_count small_club open_lab = 0" by (simp add: db_defs)
  note u = unlimited_activity [OF small_club_lab open_lab_unlimited,
             of "''a@x.com''" "[''a@x.com'', ''c@x.com'', ''d@x.com'']"]
  from u have "fst (signup_for_activity ''Open Lab'' ''a@x.com'' small_club)
        \<noteq> Inl \<lparr>status_code = 400, detail = ''Activity is full''\<rparr>"
    by auto
  moreover from u small_club_schema_ok d free zero
  have "fst (serve (map (Signup ''Open Lab'') [''a@x.com'', ''c@x.com'', ''d@x.com''])
              small_club)
        = [Inr ''Signed up a@x.com for Open Lab'', Inr ''Signed up c@x.com for Open Lab'',
           Inr ''Signed up d@x.com for Open Lab'']
     \<and> participant_count
         (snd (serve (map (Signup ''Open Lab'') [''a@x.com'', ''c@x.com'', ''d@x.com''])
                 small_club)) open_lab = 3"
    by simp
  ultimately show ?thesis
    using small_club_lab open_lab_unlimited small_club_schema_ok free by simp
qed

section \<open>Seeding\<close>

text \<open>
  C6: on a database with no Activity row, seeding makes the Activity table the nine dicts of
  \<open>initial\<close>, in order, with the keys 1 to 9, and leaves the User and Participation tables
  as they are; the listing is then the nine names with their description, schedule and
  capacity and an empty list of participants (the database satisfying its foreign keys).
  On a database with at least one Activity row, seeding changes nothing. So seeding twice
  is seeding once.
\<close>

theorem seed_if_empty:
  "(activities s = [] \<longrightarrow>
      activities (seed_initial_activities_if_needed s)
        = map (\<lambda>(i, n, d, sch, m).
                 \<lparr>a_id = i, a_name = n, a_description = Some d, a_schedule = Some sch,
                   a_max_participants = m\<rparr>)
              (zip [1, 2, 3, 4, 5, 6, 7, 8, 9] initial)
      \<and> length (activities (seed_initial_activities_if_needed s)) = 9
      \<and> users (seed_initial_activities_if_needed s) = users s
      \<and> participations (seed_initial_activities_if_needed s) = participations s
      \<and> (foreign_keys s \<longrightarrow>
           activities_as_dict (seed_initial_activities_if_needed s)
             = map (\<lambda>(n, d, sch, m).
                      (n, \<lparr>description = Some d, schedule = Some sch, max_participants = m,
                           participants = []\<rparr>))
                   initial))
   \<and> (activities s \<noteq> [] \<longrightarrow> seed_initial_activities_if_needed s = s)
   \<and> seed_initial_activities_if_needed (seed_initial_activities_if_needed s)
       = seed_initial_activities_if_needed s"
proof (cases "activities s = []")
  case True
  note seeded = seed_empty [OF True]
  have rows: "activities (seed_initial_activities_if_needed s)
        = map (\<lambda>(i, n, d, sch, m).
                 \<lparr>a_id = i, a_name = n, a_description = Some d, a_schedule = Some sch,
                   a_max_participants = m\<rparr>)
              (zip [1, 2, 3, 4, 5, 6, 7, 8, 9] initial)"
    by (simp add: seeded)
  then have len: "length (activities (seed_initial_activities_if_needed s)) = 9"
    by (simp add: initial_length)
  have frame: "users (seed_initial_activities_if_needed s) = users s"
    "participations (seed_initial_activities_if_needed s) = participations s"
    by (simp_all add: seeded)
  have listing: "activities_as_dict (seed_initial_activities_if_needed s)
             = map (\<lambda>(n, d, sch, m).
                      (n, \<lparr>description = Some d, schedule = Some sch, max_participants = m,
                           participants = []\<rparr>))
                   initial"
    if "foreign_keys s"
  proof -
    from that True have "participations s = []" by (rule no_activity_no_participation)
    with frame have "parts (seed_initial_activities_if_needed s) a = []" for a
      by (simp add: parts_empty)
    then show ?thesis
      by (simp add: activities_as_dict_def rows) (simp add: initial_def)
  qed
  from len have "activities (seed_initial_activities_if_needed s) \<noteq> []" by auto
  then have "seed_initial_activities_if_needed (seed_initial_activities_if_needed s)
               = seed_initial_activities_if_needed s"
    by (rule seed_nonempty)
  with True rows len frame listing show ?thesis by simp
next
  case False
  then have "seed_initial_activities_if_needed s = s" by (rule seed_nonempty)
  with False show ?thesis by simp
qed

theorem seed_if_empty_witness:
  "activities init_db = [] \<and> foreign_keys init_db
   \<and> map a_name (activities (seed_initial_activities_if_needed init_db))
       = [''Chess Club'', ''Programming Class'', ''Gym Class'', ''Soccer Team'',
          ''Basketball Team'', ''Art Club'', ''Drama Club'', ''Math Club'', ''Debate Team'']
   \<and> map a_id (activities (seed_initial_activities_if_needed init_db))
       = [1, 2, 3, 4, 5, 6, 7, 8, 9]
   \<and> map a_max_participants (activities (seed_initial_activities_if_needed init_db))
       = [12, 20, 30, 22, 15, 15, 20, 10, 12]
   \<and> map (\<lambda>(n, x). (n, participants x))
         (activities_as_dict (seed_initial_activities_if_needed init_db))
       = [(''Chess Club'', []), (''Programming Class'', []), (''Gym Class'', []),
          (''Soccer Team'', []), (''Basketball Team'', []), (''Art Club'', []),
          (''Drama Club'', []), (''Math Club'', []), (''Debate Team'', [])]
   \<and> seed_initial_activities_if_needed (seed_initial_activities_if_needed init_db)
       = seed_initial_activities_if_needed init_db
   \<and> activities small_club \<noteq> [] \<and> seed_initial_activities_if_needed small_club = small_club"
proof -
  have e: "activities init_db = []" and fk: "foreign_keys init_db"
    by (simp_all add: init_db_def foreign_keys_def)
  have ne: "activities small_club \<noteq> []" by (simp add: small_club_def)
  show ?thesis
    using seed_if_empty [of init_db] seed_if_empty [of small_club] e fk ne
    by (simp add: initial_def)
qed

section \<open>The tables a route leaves alone\<close>

text \<open>
  C9: signup and unregister leave the Activity table as it is, and so does every sequence
  of them; unregister leaves the User table as it is, and its Participation table is the
  one before when it fails and the one before without the rows of one primary key when it
  succeeds, which is one row removed when the primary keys are distinct; the listing
  returns the database it was given.
\<close>

theorem activity_table_frame:
  "activities (snd (signup_for_activity n e s)) = activities s
   \<and> activities (snd (unregister_from_activity n e s)) = activities s
   \<and> users (snd (unregister_from_activity n e s)) = users s
   \<and> (case fst (unregister_from_activity n e s) of
         Inl err \<Rightarrow> participations (snd (unregister_from_activity n e s)) = participations s
       | Inr msg \<Rightarrow>
           (\<exists>p \<in> set (participations s).
              participations (snd (unregister_from_activity n e s))
                = filter (\<lambda>q. p_id q \<noteq> p_id p) (participations s)
              \<and> (primary_keys s \<longrightarrow>
                   participations (snd (unregister_from_activity n e s))
                     = remove1 p (participations s))))
   \<and> get_activities s = (activities_as_dict s, s)
   \<and> activities (snd (serve rs s)) = activities s"
proof -
  have "filter (\<lambda>q. p_id q \<noteq> p_id p) (participations s) = remove1 p (participations s)"
    if "primary_keys s" and "p \<in> set (participations s)" for p
    using that by (simp add: primary_keys_def filter_key_remove1)
  then show ?thesis
    using unregister_effect [of n e s]
    by (cases "fst (unregister_from_activity n e s)")
       (auto simp: signup_activities serve_activities get_activities_def)
qed

theorem activity_table_frame_witness:
  "primary_keys full_club
   \<and> unregister_from_activity ''Chess Club'' ''a@x.com'' full_club
       = (Inr ''Unregistered a@x.com from Chess Club'',
          full_club\<lparr>participations := [\<lparr>p_id = 2, p_activity_id = 1, p_user_id = 2\<rparr>]\<rparr>)
   \<and> activities (snd (unregister_from_activity ''Chess Club'' ''a@x.com'' full_club))
       = activities full_club
   \<and> users (snd (unregister_from_activity ''Chess Club'' ''a@x.com'' full_club))
       = users full_club
   \<and> activities (snd (signup_for_activity ''Chess Club'' ''c@x.com'' full_club))
       = activities full_club
   \<and> snd (get_activities full_club) = full_club"
proof -
  have "primary_keys full_club" using full_club_schema_ok by (simp add: schema_ok_def)
  moreover have "unregister_from_activity ''Chess Club'' ''a@x.com'' full_club
       = (Inr ''Unregistered a@x.com from Chess Club'',
          full_club\<lparr>participations := [\<lparr>p_id = 2, p_activity_id = 1, p_user_id = 2\<rparr>]\<rparr>)"
    by (simp add: db_defs)
  moreover have "activities (snd (unregister_from_activity ''Chess Club'' ''a@x.com'' full_club))
       = activities full_club
     \<and> users (snd (unregister_from_activity ''Chess Club'' ''a@x.com'' full_club))
       = users full_club"
    using activity_table_frame [of "''Chess Club''" "''a@x.com''" full_club "[]"] by blast
  moreover have "activities (snd (signup_for_activity ''Chess Club'' ''c@x.com'' full_club))
       = activities full_club \<and> snd (get_activities full_club) = full_club"
    using activity_table_frame [of "''Chess Club''" "''c@x.com''" full_club "[]"] by simp
  ultimately show ?thesis by blast
qed

section \<open>Capacity along a run of requests\<close>

text \<open>
  C10: from a database whose primary keys are distinct and in which no activity with a
  positive max_participants has more Participation rows than that, every sequence of signup
  and unregister requests, served one after the other, ends in such a database.
\<close>

theorem capacity_invariant:
  assumes "primary_keys s" and "within_capacity s"
  shows "within_capacity (snd (serve rs s))"
  using assms
proof (induction rs arbitrary: s)
  case Nil
  then show ?case by simp
next
  case (Cons r rs)
  from Cons.prems have "primary_keys (snd (handle r s))"
    and "within_capacity (snd (handle r s))"
    by (simp_all add: handle_primary_keys handle_within_capacity)
  then have "within_capacity (snd (serve rs (snd (handle r s))))" by (rule Cons.IH)
  then show ?case by (simp only: serve_snd)
qed

theorem capacity_invariant_witness:
  "primary_keys full_club \<and> within_capacity full_club
   \<and> fst (serve [Signup ''Chess Club'' ''c@x.com'', Unregister ''Chess Club'' ''a@x.com'',
                  Signup ''Chess Club'' ''c@x.com''] full_club)
       = [Inl \<lparr>status_code = 400, detail = ''Activity is full''\<rparr>,
          Inr ''Unregistered a@x.com from Chess Club'',
          Inr ''Signed up c@x.com for Chess Club'']
   \<and> within_capacity
         (snd (serve [Signup ''Chess Club'' ''c@x.com'', Unregister ''Chess Club'' ''a@x.com'',
                      Signup ''Chess Club'' ''c@x.com''] full_club))
   \<and> primary_keys (seed_initial_activities_if_needed init_db)
   \<and> within_capacity (seed_initial_activities_if_needed init_db)
   \<and> within_capacity
         (snd (serve [Signup ''Chess Club'' ''a@x.com'', Signup ''Math Club'' ''a@x.com'']
                 (seed_initial_activities_if_needed init_db)))"
proof -
  have pk: "primary_keys full_club" using full_club_schema_ok by (simp add: schema_ok_def)
  have run: "fst (serve [Signup ''Chess Club'' ''c@x.com'', Unregister ''Chess Club'' ''a@x.com'',
                  Signup ''Chess Club'' ''c@x.com''] full_club)
       = [Inl \<lparr>status_code = 400, detail = ''Activity is full''\<rparr>,
          Inr ''Unregistered a@x.com from Chess Club'',
          Inr ''Signed up c@x.com for Chess Club'']"
    by (simp add: db_defs Let_def)
  show ?thesis
    using capacity_invariant [OF pk full_club_within_capacity]
      capacity_invariant [OF seeded_primary_keys seeded_within_capacity]
      pk full_club_within_capacity seeded_primary_keys seeded_within_capacity run
    by blast
qed

end
